theory Spec2Isabelle
  imports Main "HOL-Library.Sublist" "HOL-Library.Multiset"
begin

section \<open>JavaScript values and strings\<close>

text \<open>
  The notification context (\<^verbatim>\<open>src/context/NotificationContext.tsx\<close>) works on values of
  type \<^verbatim>\<open>string | number\<close> (order identifiers, raw statuses). A number is modelled by an
  integer, which \<^verbatim>\<open>String\<close> prints in decimal (as JavaScript does for integers below
  \<open>10^21\<close>); a string by a list of 8-bit characters read as Latin-1 code units (so that e
  acute is the character \<open>0xE9\<close>). Strict equality \<^verbatim>\<open>===\<close> is equality of the datatype: a
  number never equals a string.
\<close>

datatype jsval = Num int | Str string

definition digitChar :: "nat \<Rightarrow> char" where
  "digitChar d = ''0123456789'' ! (d mod 10)"

function decimal :: "nat \<Rightarrow> string" where
  "decimal n = (if n < 10 then [digitChar n] else decimal (n div 10) @ [digitChar (n mod 10)])"
  by pat_completeness auto
termination
  by (relation "measure (\<lambda>n. n)") auto

declare decimal.simps [simp del]

text \<open>The global function \<^verbatim>\<open>String(x)\<close>, also what a template literal applies.\<close>

fun js_String :: "jsval \<Rightarrow> string" where
  "js_String (Str s) = s"
| "js_String (Num n) = (if n < 0 then CHR ''-'' # decimal (nat (- n)) else decimal (nat n))"

text \<open>
  \<^verbatim>\<open>toLowerCase\<close> on Latin-1: the letters A-Z and the accented capitals \<open>0xC0\<close>-\<open>0xDE\<close>
  (without the multiplication sign \<open>0xD7\<close>) move up by \<open>0x20\<close>; every other character stays.
\<close>

definition upperChars :: "string" where
  "upperChars = ''ABCDEFGHIJKLMNOPQRSTUVWXYZ'' @
     [CHR 0xC0, CHR 0xC1, CHR 0xC2, CHR 0xC3, CHR 0xC4, CHR 0xC5, CHR 0xC6, CHR 0xC7, CHR 0xC8, CHR 0xC9,
      CHR 0xCA, CHR 0xCB, CHR 0xCC, CHR 0xCD, CHR 0xCE, CHR 0xCF, CHR 0xD0, CHR 0xD1, CHR 0xD2, CHR 0xD3,
      CHR 0xD4, CHR 0xD5, CHR 0xD6, CHR 0xD8, CHR 0xD9, CHR 0xDA, CHR 0xDB, CHR 0xDC, CHR 0xDD, CHR 0xDE]"

definition lowerChars :: "string" where
  "lowerChars = ''abcdefghijklmnopqrstuvwxyz'' @
     [CHR 0xE0, CHR 0xE1, CHR 0xE2, CHR 0xE3, CHR 0xE4, CHR 0xE5, CHR 0xE6, CHR 0xE7, CHR 0xE8, CHR 0xE9,
      CHR 0xEA, CHR 0xEB, CHR 0xEC, CHR 0xED, CHR 0xEE, CHR 0xEF, CHR 0xF0, CHR 0xF1, CHR 0xF2, CHR 0xF3,
      CHR 0xF4, CHR 0xF5, CHR 0xF6, CHR 0xF8, CHR 0xF9, CHR 0xFA, CHR 0xFB, CHR 0xFC, CHR 0xFD, CHR 0xFE]"

definition lowerChar :: "char \<Rightarrow> char" where
  "lowerChar c = (case map_of (zip upperChars lowerChars) c of Some d \<Rightarrow> d | None \<Rightarrow> c)"

definition toLowerCase :: "string \<Rightarrow> string" where
  "toLowerCase s = map lowerChar s"

text \<open>\<^verbatim>\<open>s.includes(sub)\<close>: \<open>sub\<close> occurs in \<open>s\<close> as a contiguous block.\<close>

fun includes_str :: "string \<Rightarrow> string \<Rightarrow> bool" where
  "includes_str [] sub = (sub = [])"
| "includes_str (c # cs) sub = (prefix sub (c # cs) \<or> includes_str cs sub)"

text \<open>\<^verbatim>\<open>s.replace(/\s/g, '_')\<close>; the white space of Latin-1 is \<open>0x09\<close>-\<open>0x0D\<close>, \<open>0x20\<close>, \<open>0xA0\<close>.\<close>

definition isSpace :: "char \<Rightarrow> bool" where
  "isSpace c = (c \<in> set [CHR 0x09, CHR 0x0A, CHR 0x0B, CHR 0x0C, CHR 0x0D, CHR 0x20, CHR 0xA0])"

definition replaceSpaces :: "string \<Rightarrow> string" where
  "replaceSpaces s = map (\<lambda>c. if isSpace c then CHR ''_'' else c) s"

text \<open>\<^verbatim>\<open>s.padStart(n, '0')\<close>.\<close>

definition padStart :: "nat \<Rightarrow> string \<Rightarrow> string" where
  "padStart n s = replicate (n - length s) CHR ''0'' @ s"

text \<open>An optional string is truthy when it is present and not empty; \<^verbatim>\<open>a || b\<close> on such.\<close>

fun truthy :: "string option \<Rightarrow> bool" where
  "truthy None = False"
| "truthy (Some s) = (s \<noteq> [])"

fun orElse :: "string option \<Rightarrow> string \<Rightarrow> string" where
  "orElse None d = d"
| "orElse (Some s) d = (if s = [] then d else s)"

text \<open>\<^verbatim>\<open>parts.join(" ")\<close>.\<close>

fun joinSpace :: "string list \<Rightarrow> string" where
  "joinSpace [] = []"
| "joinSpace [x] = x"
| "joinSpace (x # y # ys) = x @ '' '' @ joinSpace (y # ys)"

section \<open>The order feed\<close>

text \<open>
  The fields of \<^verbatim>\<open>Order\<close> (\<^verbatim>\<open>src/services/api/orderService.ts\<close>) that the notification
  context reads. A date field holds the milliseconds that \<^verbatim>\<open>new Date(...)\<close> makes of its
  string: \<open>None\<close> is an absent or empty field, and strings that do not parse (an invalid
  date, whose time is \<^verbatim>\<open>NaN\<close>) are not modelled.
\<close>

record person =
  p_prenoms :: "string option"
  p_nom :: "string option"
  p_name :: "string option"

record order =
  o_id :: jsval
  o_status :: jsval
  o_status_text :: "string option"
  o_numero :: "string option"
  o_order_number :: "string option"
  o_created_at :: "int option"
  o_updated_at :: "int option"
  o_order_date :: "int option"
  o_client :: "person option"
  o_user :: "person option"
  o_location_name :: "string option"
  o_delivery_location :: "string option"
  o_deliveryLocation :: "string option"

text \<open>What \<^verbatim>\<open>orderService.getOrders(1)\<close> gives: it throws, or it returns \<^verbatim>\<open>response.data\<close>.\<close>

datatype fetch = FetchError | Fetched "order list option"

definition nameParts :: "person \<Rightarrow> string list" where
  "nameParts p = filter (\<lambda>x. x \<noteq> []) (map (\<lambda>x. orElse x []) [p_prenoms p, p_nom p])"

definition getCustomerName :: "order \<Rightarrow> string" where
  "getCustomerName ord =
     (let clientParts = (case o_client ord of None \<Rightarrow> [] | Some c \<Rightarrow> nameParts c);
          userParts = (case o_user ord of None \<Rightarrow> [] | Some u \<Rightarrow> nameParts u)
      in if clientParts \<noteq> [] then joinSpace clientParts
         else if userParts \<noteq> [] then joinSpace userParts
         else (case o_user ord of
                 None \<Rightarrow> ''Client''
               | Some u \<Rightarrow> orElse (p_name u) ''Client''))"

definition getLocation :: "order \<Rightarrow> string" where
  "getLocation ord =
     (if truthy (o_location_name ord) then orElse (o_location_name ord) []
      else if truthy (o_delivery_location ord) \<or> truthy (o_deliveryLocation ord)
        then orElse (o_delivery_location ord) (orElse (o_deliveryLocation ord) [])
      else ''Non sp'' @ [CHR 0xE9] @ ''cifi'' @ [CHR 0xE9] @ ''e'')"

definition getOrderNumber :: "order \<Rightarrow> string" where
  "getOrderNumber ord =
     orElse (o_numero ord) (orElse (o_order_number ord) (''CMD-'' @ padStart 6 (js_String (o_id ord))))"

text \<open>\<^verbatim>\<open>new Date(a || b || ... || fallback)\<close> on date fields.\<close>

fun firstDate :: "int option list \<Rightarrow> int \<Rightarrow> int" where
  "firstDate [] d = d"
| "firstDate (None # xs) d = firstDate xs d"
| "firstDate (Some t # xs) d = t"

section \<open>Notifications and the state of the provider\<close>

datatype NotificationType = new_order | status_change | delivered

record notification =
  n_id :: string
  n_orderId :: jsval
  n_type :: NotificationType
  n_message :: string
  n_customerName :: string
  n_orderNumber :: string
  n_location :: "string option"
  n_status :: "string option"
  n_previousStatus :: "string option"
  n_timestamp :: int
  n_isRead :: bool
  n_isNew :: bool

text \<open>
  The three structures of \<^verbatim>\<open>NotificationProvider\<close> and its loading flag. The refs
  \<^verbatim>\<open>seenOrderIdsRef\<close> and \<^verbatim>\<open>lastOrderStatusesRef\<close> are kept equal to the state by effects
  and are not modelled apart from it.
\<close>

record state =
  notifications :: "notification list"
  seenOrderIds :: "string set"
  lastOrderStatuses :: "string \<rightharpoonup> string"
  isLoading :: bool

definition emptyState :: "state" where
  "emptyState = \<lparr>notifications = [], seenOrderIds = {}, lastOrderStatuses = Map.empty, isLoading = False\<rparr>"

section \<open>Status classification\<close>

text \<open>
  The test whether the status in lower case includes the French word for "delivered"
  (\<^verbatim>\<open>livr\<close> and e acute) or \<^verbatim>\<open>delivered\<close>, which the source writes out in
  \<^verbatim>\<open>getNotificationType\<close>, in \<^verbatim>\<open>generateStatusMessage\<close> and twice in \<^verbatim>\<open>refreshNotifications\<close>.
\<close>

definition isDeliveredStatus :: "string \<Rightarrow> bool" where
  "isDeliveredStatus currentStatus =
     (let statusLower = toLowerCase currentStatus
      in includes_str statusLower (''livr'' @ [CHR 0xE9]) \<or> includes_str statusLower ''delivered'')"

definition getNotificationType :: "string \<Rightarrow> NotificationType" where
  "getNotificationType currentStatus = (if isDeliveredStatus currentStatus then delivered else status_change)"

definition deliveredMessage :: "string" where
  "deliveredMessage = ''a '' @ [CHR 0xE9] @ ''t'' @ [CHR 0xE9] @ '' livr'' @ [CHR 0xE9] @ ''e avec succ'' @ [CHR 0xE8] @ ''s''"

definition generateStatusMessage :: "string \<Rightarrow> string option \<Rightarrow> string" where
  "generateStatusMessage currentStatus previousStatus =
     (let statusLower = toLowerCase currentStatus
      in if isDeliveredStatus currentStatus then deliveredMessage
         else if includes_str statusLower (''pr'' @ [CHR 0xE9] @ ''paration'') \<or> includes_str statusLower ''preparing''
           then ''est en cours de pr'' @ [CHR 0xE9] @ ''paration''
         else if includes_str statusLower ''livraison'' \<or> includes_str statusLower ''delivering''
           then ''est en cours de livraison''
         else if includes_str statusLower (''annul'' @ [CHR 0xE9]) \<or> includes_str statusLower ''cancelled''
           then ''a '' @ [CHR 0xE9] @ ''t'' @ [CHR 0xE9] @ '' annul'' @ [CHR 0xE9] @ ''e''
         else if includes_str statusLower ''attente'' \<and> includes_str statusLower ''paiement''
           then ''est en attente de paiement''
         else if truthy previousStatus
           then ''est pass'' @ [CHR 0xE9] @ ''e '' @ [CHR 0xE0] @ '' '' @ [CHR 0x22] @ currentStatus @ [CHR 0x22]
         else ''a chang'' @ [CHR 0xE9] @ '' de statut'')"

section \<open>One reconciliation pass: \<^verbatim>\<open>refreshNotifications\<close>\<close>

text \<open>
  \<^verbatim>\<open>Date.now()\<close> and \<^verbatim>\<open>new Date()\<close> read the clock; a pass takes its reading \<open>now\<close>
  (milliseconds, one reading for the whole pass) as an argument.
\<close>

definition currentStatusOf :: "order \<Rightarrow> string" where
  "currentStatusOf ord = orElse (o_status_text ord) (js_String (o_status ord))"

text \<open>The predicate \<^verbatim>\<open>n.orderId === order.id && n.type === "new_order" && !n.isRead\<close>.\<close>

definition isUnreadNewOrderFor :: "jsval \<Rightarrow> notification \<Rightarrow> bool" where
  "isUnreadNewOrderFor oid n = (n_orderId n = oid \<and> n_type n = new_order \<and> \<not> n_isRead n)"

text \<open>The new-order event of one order (lines 303-341).\<close>

definition newOrderEvent :: "notification list \<Rightarrow> string set \<Rightarrow> nat \<Rightarrow> order \<Rightarrow> notification list" where
  "newOrderEvent prev currentSeen now ord =
     (let orderId = js_String (o_id ord);
          currentStatus = currentStatusOf ord;
          isNewOrder = (orderId \<notin> currentSeen);
          hasExistingNewOrderNotif = list_ex (isUnreadNewOrderFor (o_id ord)) prev;
          notificationId = ''new-'' @ orderId @ ''-'' @ decimal now
      in if isNewOrder \<and> \<not> hasExistingNewOrderNotif then
           (if isDeliveredStatus currentStatus then
              [\<lparr>n_id = notificationId, n_orderId = o_id ord, n_type = delivered,
                n_message = deliveredMessage,
                n_customerName = getCustomerName ord, n_orderNumber = getOrderNumber ord,
                n_location = Some (getLocation ord), n_status = Some currentStatus,
                n_previousStatus = None,
                n_timestamp = firstDate [o_updated_at ord, o_created_at ord, o_order_date ord] (int now),
                n_isRead = False, n_isNew = True\<rparr>]
            else
              [\<lparr>n_id = notificationId, n_orderId = o_id ord, n_type = new_order,
                n_message = ''a pass'' @ [CHR 0xE9] @ '' une nouvelle commande'',
                n_customerName = getCustomerName ord, n_orderNumber = getOrderNumber ord,
                n_location = Some (getLocation ord), n_status = Some currentStatus,
                n_previousStatus = None,
                n_timestamp = firstDate [o_created_at ord, o_order_date ord] (int now),
                n_isRead = False, n_isNew = True\<rparr>])
         else [])"

text \<open>The retroactive upgrade of an unread new-order notification (lines 343-359).\<close>

definition upgradeEvent :: "notification list \<Rightarrow> order \<Rightarrow> notification list" where
  "upgradeEvent prev ord =
     (let currentStatus = currentStatusOf ord
      in case find (isUnreadNewOrderFor (o_id ord)) prev of
           None \<Rightarrow> []
         | Some existingNotif \<Rightarrow>
             if isDeliveredStatus currentStatus \<and> n_status existingNotif \<noteq> Some currentStatus then
               [existingNotif\<lparr>n_type := delivered, n_message := deliveredMessage,
                  n_status := Some currentStatus,
                  n_timestamp := firstDate [o_updated_at ord] (n_timestamp existingNotif)\<rparr>]
             else [])"

text \<open>The status-change event (lines 361-394).\<close>

definition statusChangeEvent ::
  "notification list \<Rightarrow> string set \<Rightarrow> (string \<rightharpoonup> string) \<Rightarrow> nat \<Rightarrow> order \<Rightarrow> notification list" where
  "statusChangeEvent prev currentSeen currentStatuses now ord =
     (let orderId = js_String (o_id ord);
          currentStatus = currentStatusOf ord;
          isNewOrder = (orderId \<notin> currentSeen);
          previousStatus = currentStatuses orderId;
          hasStatusChanged = (\<not> isNewOrder \<and> truthy previousStatus \<and> previousStatus \<noteq> Some currentStatus);
          hasSameStatusNotif =
            list_ex (\<lambda>n. n_orderId n = o_id ord \<and> n_status n = Some currentStatus \<and> \<not> n_isRead n) prev;
          notificationId = ''status-'' @ orderId @ ''-'' @ replaceSpaces currentStatus @ ''-'' @ decimal now
      in if hasStatusChanged \<and> \<not> hasSameStatusNotif then
           [\<lparr>n_id = notificationId, n_orderId = o_id ord, n_type = getNotificationType currentStatus,
             n_message = generateStatusMessage currentStatus previousStatus,
             n_customerName = getCustomerName ord, n_orderNumber = getOrderNumber ord,
             n_location = Some (getLocation ord), n_status = Some currentStatus,
             n_previousStatus = previousStatus,
             n_timestamp = firstDate [o_updated_at ord] (int now),
             n_isRead = False, n_isNew = True\<rparr>]
         else [])"

text \<open>The body of \<^verbatim>\<open>orders.forEach\<close> pushes, for one order, these events in this order.\<close>

definition orderEvents ::
  "notification list \<Rightarrow> string set \<Rightarrow> (string \<rightharpoonup> string) \<Rightarrow> nat \<Rightarrow> order \<Rightarrow> notification list" where
  "orderEvents prev currentSeen currentStatuses now ord =
     newOrderEvent prev currentSeen now ord @ upgradeEvent prev ord
       @ statusChangeEvent prev currentSeen currentStatuses now ord"

definition newNotifications ::
  "notification list \<Rightarrow> string set \<Rightarrow> (string \<rightharpoonup> string) \<Rightarrow> nat \<Rightarrow> order list \<Rightarrow> notification list" where
  "newNotifications prev currentSeen currentStatuses now orders =
     concat (map (orderEvents prev currentSeen currentStatuses now) orders)"

text \<open>\<^verbatim>\<open>updatedStatuses\<close>: a fresh map, filled from the feed alone (lines 277, 286).\<close>

definition updatedStatuses :: "order list \<Rightarrow> (string \<rightharpoonup> string)" where
  "updatedStatuses orders = fold (\<lambda>ord m. m(js_String (o_id ord) \<mapsto> currentStatusOf ord)) orders Map.empty"

text \<open>
  \<^verbatim>\<open>updatedPrev\<close> (lines 403-429): the earlier notifications whose order is still in the
  feed, a new-order one turned into a delivered one when the first order of the feed with
  its identifier is delivered.
\<close>

definition carryForward :: "order list \<Rightarrow> notification \<Rightarrow> notification option" where
  "carryForward orders notif =
     (case find (\<lambda>ord. js_String (o_id ord) = js_String (n_orderId notif)) orders of
        None \<Rightarrow> None
      | Some ord \<Rightarrow>
          (let currentStatus = currentStatusOf ord
           in if n_type notif = new_order \<and> isDeliveredStatus currentStatus \<and> n_status notif \<noteq> Some currentStatus
              then Some (notif\<lparr>n_type := delivered, n_message := deliveredMessage, n_status := Some currentStatus\<rparr>)
              else Some notif))"

definition updatedPrev :: "order list \<Rightarrow> notification list \<Rightarrow> notification list" where
  "updatedPrev orders prev =
     List.map_filter (carryForward orders)
       (filter (\<lambda>notif. js_String (n_orderId notif) \<in> set (map (\<lambda>ord. js_String (o_id ord)) orders)) prev)"

text \<open>The composite key of the deduplication (lines 438-449) and its loop.\<close>

fun typeName :: "NotificationType \<Rightarrow> string" where
  "typeName new_order = ''new_order''"
| "typeName status_change = ''status_change''"
| "typeName delivered = ''delivered''"

definition notifKey :: "notification \<Rightarrow> string" where
  "notifKey notif =
     (if n_type notif = new_order \<or> n_type notif = delivered
      then js_String (n_orderId notif) @ ''-'' @ typeName (n_type notif)
      else js_String (n_orderId notif) @ ''-'' @ typeName (n_type notif) @ ''-'' @ orElse (n_status notif) [])"

fun dedupe :: "string set \<Rightarrow> notification list \<Rightarrow> notification list" where
  "dedupe seenKeys [] = []"
| "dedupe seenKeys (notif # rest) =
     (if notifKey notif \<in> seenKeys then dedupe seenKeys rest
      else notif # dedupe (insert (notifKey notif) seenKeys) rest)"

definition uniqueNotifications :: "order list \<Rightarrow> nat \<Rightarrow> state \<Rightarrow> notification list" where
  "uniqueNotifications orders now s =
     dedupe {} (newNotifications (notifications s) (seenOrderIds s) (lastOrderStatuses s) now orders
                @ updatedPrev orders (notifications s))"

text \<open>
  \<^verbatim>\<open>sort((a, b) => b.timestamp.getTime() - a.timestamp.getTime())\<close> is a stable sort, newest
  first; \<^verbatim>\<open>slice(0, 30)\<close> keeps the first thirty.
\<close>

definition sortNewestFirst :: "notification list \<Rightarrow> notification list" where
  "sortNewestFirst ns = sort_key (\<lambda>n. - n_timestamp n) ns"

definition limited :: "order list \<Rightarrow> nat \<Rightarrow> state \<Rightarrow> notification list" where
  "limited orders now s = take 30 (sortNewestFirst (uniqueNotifications orders now s))"

fun refreshNotifications :: "fetch \<Rightarrow> nat \<Rightarrow> state \<Rightarrow> state" where
  "refreshNotifications FetchError now s = s\<lparr>isLoading := False\<rparr>"
| "refreshNotifications (Fetched None) now s = s\<lparr>notifications := [], isLoading := False\<rparr>"
| "refreshNotifications (Fetched (Some [])) now s = s\<lparr>notifications := [], isLoading := False\<rparr>"
| "refreshNotifications (Fetched (Some (ord # ords))) now s =
     s\<lparr>notifications := limited (ord # ords) now s,
       lastOrderStatuses := updatedStatuses (ord # ords),
       isLoading := False\<rparr>"

section \<open>Acknowledging notifications\<close>

definition markRead :: "notification \<Rightarrow> notification" where
  "markRead n = n\<lparr>n_isRead := True, n_isNew := False\<rparr>"

definition markAsRead :: "string \<Rightarrow> state \<Rightarrow> state" where
  "markAsRead notificationId s =
     (let prev = notifications s;
          updated = map (\<lambda>n. if n_id n = notificationId then markRead n else n) prev
      in case find (\<lambda>n. n_id n = notificationId) prev of
           None \<Rightarrow> s\<lparr>notifications := updated\<rparr>
         | Some notification \<Rightarrow>
             s\<lparr>notifications := updated,
               seenOrderIds := insert (js_String (n_orderId notification)) (seenOrderIds s)\<rparr>)"

definition markAllAsRead :: "state \<Rightarrow> state" where
  "markAllAsRead s =
     s\<lparr>notifications := map markRead (notifications s),
       seenOrderIds := seenOrderIds s \<union> set (map (\<lambda>n. js_String (n_orderId n)) (notifications s))\<rparr>"

text \<open>A sequence of passes, each with its fetch result and its clock reading.\<close>

definition reconcileAll :: "(fetch \<times> nat) list \<Rightarrow> state \<Rightarrow> state" where
  "reconcileAll passes s = fold (\<lambda>(response, now) st. refreshNotifications response now st) passes s"

section \<open>Predicates of the properties\<close>

text \<open>A list of notifications is sorted by time stamp, the newest first.\<close>

definition newestFirst :: "notification list \<Rightarrow> bool" where
  "newestFirst ns = sorted_wrt (\<lambda>a b. n_timestamp b \<le> n_timestamp a) ns"

text \<open>
  An order is newly flagged in a state when the pass takes it for a new order: its identifier
  is not in the seen set and no unread new-order notification stands for it (line 305).
\<close>

definition newlyFlagged :: "state \<Rightarrow> order \<Rightarrow> bool" where
  "newlyFlagged s ord =
     (js_String (o_id ord) \<notin> seenOrderIds s \<and> \<not> list_ex (isUnreadNewOrderFor (o_id ord)) (notifications s))"

text \<open>The deduplication key of the new-order event of an order.\<close>

definition newKey :: "order \<Rightarrow> string" where
  "newKey ord = js_String (o_id ord) @ ''-'' @
     typeName (if isDeliveredStatus (currentStatusOf ord) then delivered else new_order)"

text \<open>
  The unread notifications of an order (named by the string of its identifier): those of
  type new-order or delivered taken together, those of one type, and the status changes
  that carry one status.
\<close>

definition unreadNewOrDelivered :: "string \<Rightarrow> notification list \<Rightarrow> notification list" where
  "unreadNewOrDelivered oid ns =
     filter (\<lambda>n. js_String (n_orderId n) = oid \<and> \<not> n_isRead n \<and> (n_type n = new_order \<or> n_type n = delivered)) ns"

definition unreadOfType :: "string \<Rightarrow> NotificationType \<Rightarrow> notification list \<Rightarrow> notification list" where
  "unreadOfType oid ty ns =
     filter (\<lambda>n. js_String (n_orderId n) = oid \<and> \<not> n_isRead n \<and> n_type n = ty) ns"

definition unreadStatusChange :: "string \<Rightarrow> string option \<Rightarrow> notification list \<Rightarrow> notification list" where
  "unreadStatusChange oid st ns =
     filter (\<lambda>n. js_String (n_orderId n) = oid \<and> \<not> n_isRead n \<and> n_type n = status_change \<and> n_status n = st) ns"

text \<open>No two notifications of a list have the same deduplication key.\<close>

definition keysDistinct :: "notification list \<Rightarrow> bool" where
  "keysDistinct ns = distinct (map notifKey ns)"

text \<open>
  Every identifier that a pass makes ends in a hyphen and the pass's clock reading. The
  reading of a pass is fresh for an identifier that does not end so.
\<close>

definition freshClock :: "string \<Rightarrow> fetch \<times> nat \<Rightarrow> bool" where
  "freshClock nid pass = (\<not> suffix (''-'' @ decimal (snd pass)) nid)"

text \<open>Every notification of the list that bears the identifier is read.\<close>

definition readUnder :: "string \<Rightarrow> notification list \<Rightarrow> bool" where
  "readUnder nid ns = list_all (\<lambda>n. n_id n = nid \<longrightarrow> n_isRead n) ns"

text \<open>
  All the notifications of an order, and those of type new-order or delivered.
\<close>

definition notificationsOf :: "string \<Rightarrow> notification list \<Rightarrow> notification list" where
  "notificationsOf oid ns = filter (\<lambda>n. js_String (n_orderId n) = oid) ns"

definition newOrDeliveredOf :: "string \<Rightarrow> notification list \<Rightarrow> notification list" where
  "newOrDeliveredOf oid ns =
     filter (\<lambda>n. js_String (n_orderId n) = oid \<and> (n_type n = new_order \<or> n_type n = delivered)) ns"

text \<open>
  No new-order notification of the list carries a delivered status (the pass makes a
  new-order notification only for an order that is not delivered, line 312).
\<close>

definition newOrdersUndelivered :: "notification list \<Rightarrow> bool" where
  "newOrdersUndelivered ns =
     list_all (\<lambda>n. n_type n = new_order \<longrightarrow>
                 (case n_status n of None \<Rightarrow> True | Some st \<Rightarrow> \<not> isDeliveredStatus st)) ns"

text \<open>The notification that the retroactive upgrade makes of \<open>n\<close> (lines 351-357).\<close>

definition upgraded :: "order \<Rightarrow> notification \<Rightarrow> notification" where
  "upgraded ord n =
     n\<lparr>n_type := delivered, n_message := deliveredMessage, n_status := Some (currentStatusOf ord),
       n_timestamp := firstDate [o_updated_at ord] (n_timestamp n)\<rparr>"

section \<open>Concrete orders, notifications and states\<close>

text \<open>An order record that carries an identifier and a raw status and nothing else.\<close>

definition plainOrder :: "jsval \<Rightarrow> string \<Rightarrow> order" where
  "plainOrder i st =
     \<lparr>o_id = i, o_status = Str st, o_status_text = None, o_numero = None,
      o_order_number = None, o_created_at = None, o_updated_at = None, o_order_date = None,
      o_client = None, o_user = None, o_location_name = None, o_delivery_location = None,
      o_deliveryLocation = None\<rparr>"

text \<open>A notification with the given identifier, order, type, status and read flag.\<close>

definition plainNotif :: "string \<Rightarrow> jsval \<Rightarrow> NotificationType \<Rightarrow> string \<Rightarrow> bool \<Rightarrow> notification" where
  "plainNotif i oid ty st rd =
     \<lparr>n_id = i, n_orderId = oid, n_type = ty, n_message = ''message'',
      n_customerName = ''Client'', n_orderNumber = ''CMD-000007'', n_location = None,
      n_status = Some st, n_previousStatus = None, n_timestamp = 500,
      n_isRead = rd, n_isNew = \<not> rd\<rparr>"

text \<open>A state that knows order 7: one unread new-order notification, seen, status pending.\<close>

definition knownState :: "state" where
  "knownState =
     \<lparr>notifications = [plainNotif ''new-7-500'' (Num 7) new_order ''pending'' False],
      seenOrderIds = {''7''},
      lastOrderStatuses = [''7'' \<mapsto> ''pending''],
      isLoading = False\<rparr>"

text \<open>Forty pending orders, numbered 1 to 40.\<close>

definition fortyOrders :: "order list" where
  "fortyOrders = map (\<lambda>i. plainOrder (Num i) ''pending'') [1..40]"

text \<open>Two passes: order 1 is delivered when first seen, and pending half a minute later.\<close>

definition deliveredThenPending :: "(fetch \<times> nat) list" where
  "deliveredThenPending =
     [(Fetched (Some [plainOrder (Num 1) ''delivered'']), 1000),
      (Fetched (Some [plainOrder (Num 1) ''pending'']), 31000)]"

text \<open>Three later passes for the known state: the second fetch fails, order 7 stays pending.\<close>

definition pendingAgain :: "(fetch \<times> nat) list" where
  "pendingAgain =
     [(Fetched (Some [plainOrder (Num 7) ''pending'', plainOrder (Num 8) ''pending'']), 31000),
      (FetchError, 61000),
      (Fetched (Some [plainOrder (Num 7) ''pending'']), 91000)]"

text \<open>
  A feed with one order, delivered and dated, and the states after one and after two
  passes over it from the empty state, thirty seconds apart.
\<close>

definition deliveredFeed :: "order list" where
  "deliveredFeed = [(plainOrder (Num 1) ''delivered'')\<lparr>o_updated_at := Some 500\<rparr>]"

definition afterFirstPass :: "state" where
  "afterFirstPass = refreshNotifications (Fetched (Some deliveredFeed)) 1000 emptyState"

definition afterSecondPass :: "state" where
  "afterSecondPass = refreshNotifications (Fetched (Some deliveredFeed)) 31000 afterFirstPass"

text \<open>
  The notifications that passes make for the plain order 1, and two states of its history:
  after the two passes above, and after the delivered notification was then marked as read
  and a third pass found the order in preparation.
\<close>

definition madeForOrder1 ::
  "string \<Rightarrow> NotificationType \<Rightarrow> string \<Rightarrow> string \<Rightarrow> string option \<Rightarrow> int \<Rightarrow> bool \<Rightarrow> notification" where
  "madeForOrder1 i ty msg st prev ts rd =
     \<lparr>n_id = i, n_orderId = Num 1, n_type = ty, n_message = msg,
      n_customerName = ''Client'', n_orderNumber = ''CMD-000001'',
      n_location = Some (''Non sp'' @ [CHR 0xE9] @ ''cifi'' @ [CHR 0xE9] @ ''e''),
      n_status = Some st, n_previousStatus = prev, n_timestamp = ts,
      n_isRead = rd, n_isNew = \<not> rd\<rparr>"

definition afterDeliveredThenPending :: "state" where
  "afterDeliveredThenPending =
     \<lparr>notifications =
        [madeForOrder1 ''new-1-31000'' new_order (''a pass'' @ [CHR 0xE9] @ '' une nouvelle commande'')
           ''pending'' None 31000 False,
         madeForOrder1 ''new-1-1000'' delivered deliveredMessage ''delivered'' None 1000 False],
      seenOrderIds = {},
      lastOrderStatuses = [''1'' \<mapsto> ''pending''],
      isLoading = False\<rparr>"

definition beforeUpgrade :: "state" where
  "beforeUpgrade =
     \<lparr>notifications =
        [madeForOrder1 ''status-1-preparing-61000'' status_change
           (''est en cours de pr'' @ [CHR 0xE9] @ ''paration'') ''preparing'' (Some ''pending'') 61000 False,
         madeForOrder1 ''new-1-31000'' new_order (''a pass'' @ [CHR 0xE9] @ '' une nouvelle commande'')
           ''pending'' None 31000 False,
         madeForOrder1 ''new-1-1000'' delivered deliveredMessage ''delivered'' None 1000 True],
      seenOrderIds = {''1''},
      lastOrderStatuses = [''1'' \<mapsto> ''preparing''],
      isLoading = False\<rparr>"

text \<open>A feed for the known state: order 7 is now delivered, order 8 is new.\<close>

definition deliveredAndNew :: "order list" where
  "deliveredAndNew = [plainOrder (Num 7) ''delivered'', plainOrder (Num 8) ''pending'']"

section \<open>Evaluating a pass on concrete input\<close>

lemmas pass_eval =
  reconcileAll_def limited_def sortNewestFirst_def uniqueNotifications_def newNotifications_def
  orderEvents_def newOrderEvent_def upgradeEvent_def statusChangeEvent_def updatedPrev_def
  carryForward_def notifKey_def isUnreadNewOrderFor_def currentStatusOf_def isDeliveredStatus_def
  toLowerCase_def lowerChar_def upperChars_def lowerChars_def getNotificationType_def
  generateStatusMessage_def getCustomerName_def getLocation_def getOrderNumber_def padStart_def
  replaceSpaces_def isSpace_def nameParts_def deliveredMessage_def updatedStatuses_def
  decimal.simps digitChar_def Let_def List.map_filter_def emptyState_def plainOrder_def
  plainNotif_def

section \<open>Scope loss and fetch failure\<close>

text \<open>
  C1. A pass whose fetched feed is absent or empty ends with an empty notification list,
  whatever the state before the pass was.
\<close>

theorem scope_loss_clears_all:
  "notifications (refreshNotifications (Fetched None) now s) = [] \<and>
   notifications (refreshNotifications (Fetched (Some [])) now s) = []"
  by simp

theorem scope_loss_clears_all_witness:
  "notifications (refreshNotifications (Fetched None) 1000 knownState) = [] \<and>
   notifications (refreshNotifications (Fetched (Some [])) 1000 knownState) = []"
  by (rule scope_loss_clears_all)

text \<open>
  C10. A pass whose fetched feed is absent or empty leaves the set of seen order
  identifiers and the map of last known statuses as they were: only the notification list
  is cleared.
\<close>

theorem scope_loss_frame:
  "seenOrderIds (refreshNotifications (Fetched None) now s) = seenOrderIds s \<and>
   lastOrderStatuses (refreshNotifications (Fetched None) now s) = lastOrderStatuses s \<and>
   seenOrderIds (refreshNotifications (Fetched (Some [])) now s) = seenOrderIds s \<and>
   lastOrderStatuses (refreshNotifications (Fetched (Some [])) now s) = lastOrderStatuses s"
  by simp

theorem scope_loss_frame_witness:
  "seenOrderIds (refreshNotifications (Fetched None) 1000 knownState) = seenOrderIds knownState \<and>
   lastOrderStatuses (refreshNotifications (Fetched None) 1000 knownState) = lastOrderStatuses knownState \<and>
   seenOrderIds (refreshNotifications (Fetched (Some [])) 1000 knownState) = seenOrderIds knownState \<and>
   lastOrderStatuses (refreshNotifications (Fetched (Some [])) 1000 knownState) = lastOrderStatuses knownState"
  by (rule scope_loss_frame)

text \<open>
  C8. When the fetch of the feed raises, the pass still returns (the model is a total
  function: the error is caught, nothing is raised to the caller), and the notification
  list, the seen set and the last-status map are those of before the pass; only the loading
  flag is reset.
\<close>

theorem fetch_failure_keeps_state:
  "refreshNotifications FetchError now s = s\<lparr>isLoading := False\<rparr> \<and>
   notifications (refreshNotifications FetchError now s) = notifications s \<and>
   seenOrderIds (refreshNotifications FetchError now s) = seenOrderIds s \<and>
   lastOrderStatuses (refreshNotifications FetchError now s) = lastOrderStatuses s"
  by simp

theorem fetch_failure_keeps_state_witness:
  "refreshNotifications FetchError 1000 knownState = knownState\<lparr>isLoading := False\<rparr> \<and>
   notifications (refreshNotifications FetchError 1000 knownState) = notifications knownState \<and>
   seenOrderIds (refreshNotifications FetchError 1000 knownState) = seenOrderIds knownState \<and>
   lastOrderStatuses (refreshNotifications FetchError 1000 knownState) = lastOrderStatuses knownState"
  by (rule fetch_failure_keeps_state)

section \<open>The map of last known statuses\<close>

lemma dom_fold_statuses:
  "dom (fold (\<lambda>ord m. m(js_String (o_id ord) \<mapsto> currentStatusOf ord)) orders m0)
     = dom m0 \<union> (\<lambda>ord. js_String (o_id ord)) ` set orders"
  by (induction orders arbitrary: m0) auto

lemma dom_updatedStatuses:
  "dom (updatedStatuses orders) = (\<lambda>ord. js_String (o_id ord)) ` set orders"
  by (simp add: updatedStatuses_def dom_fold_statuses)

text \<open>
  C5, as the code has it. The pass builds a fresh map from the feed and installs it in
  place of the old one: after a pass over a feed that is not empty, the map has an entry
  for an identifier exactly when an order of the feed has that identifier, so the entries
  of orders that left the feed are dropped.
\<close>

theorem statuses_replaced_by_feed:
  "orders \<noteq> [] \<Longrightarrow>
   (lastOrderStatuses (refreshNotifications (Fetched (Some orders)) now s) k \<noteq> None)
     = (k \<in> (\<lambda>ord. js_String (o_id ord)) ` set orders)"
proof -
  assume "orders \<noteq> []"
  then obtain ord ords where "orders = ord # ords"
    by (cases orders) auto
  then have "lastOrderStatuses (refreshNotifications (Fetched (Some orders)) now s) = updatedStatuses orders"
    by simp
  moreover have "(updatedStatuses orders k \<noteq> None) = (k \<in> dom (updatedStatuses orders))"
    by auto
  ultimately show ?thesis
    by (simp only: dom_updatedStatuses)
qed

theorem statuses_replaced_by_feed_witness:
  "[plainOrder (Num 8) ''pending''] \<noteq> [] \<and>
   (lastOrderStatuses (refreshNotifications (Fetched (Some [plainOrder (Num 8) ''pending''])) 1000 knownState) ''7'' \<noteq> None)
     = (''7'' \<in> (\<lambda>ord. js_String (o_id ord)) ` set [plainOrder (Num 8) ''pending''])"
  using statuses_replaced_by_feed [of "[plainOrder (Num 8) ''pending'']" 1000 knownState "''7''"]
  by simp

text \<open>
  The claim itself fails: order 7 has an entry before the pass, is absent from the feed
  (which lists order 8 alone), and has no entry after the pass.
\<close>

theorem statuses_never_removed_counterexample:
  "lastOrderStatuses knownState ''7'' = Some ''pending'' \<and>
   ''7'' \<notin> set (map js_String (map o_id [plainOrder (Num 8) ''pending''])) \<and>
   lastOrderStatuses (refreshNotifications (Fetched (Some [plainOrder (Num 8) ''pending''])) 1000 knownState) ''7'' = None"
  by (simp add: knownState_def plainOrder_def updatedStatuses_def currentStatusOf_def
      decimal.simps digitChar_def)

section \<open>Marking a notification as read\<close>

lemma n_id_markRead [simp]: "n_id (markRead m) = n_id m"
  and n_orderId_markRead [simp]: "n_orderId (markRead m) = n_orderId m"
  and markRead_idem [simp]: "markRead (markRead m) = markRead m"
  by (simp_all add: markRead_def)

lemma find_markRead:
  "find (\<lambda>m. n_id m = nid) (map (\<lambda>m. if n_id m = nid then markRead m else m) ns)
     = map_option markRead (find (\<lambda>m. n_id m = nid) ns)"
  by (induction ns) auto

lemma map_markRead_twice:
  "map (\<lambda>m. if n_id m = nid then markRead m else m) (map (\<lambda>m. if n_id m = nid then markRead m else m) ns)
     = map (\<lambda>m. if n_id m = nid then markRead m else m) ns"
  by (induction ns) auto

text \<open>
  C7. When a notification of the list bears the identifier (\<open>n\<close> is the one the source's
  \<^verbatim>\<open>prev.find\<close> returns), \<^verbatim>\<open>markAsRead\<close> sets \<^verbatim>\<open>isRead\<close> and clears \<^verbatim>\<open>isNew\<close> on the notification
  with that identifier and leaves every notification with another identifier as it was, adds
  the order identifier of \<open>n\<close> to the seen set, and does not touch the last-status map;
  marking the same identifier again changes nothing in the state.
\<close>

theorem markAsRead_effect:
  assumes present: "find (\<lambda>m. n_id m = nid) (notifications s) = Some n"
  shows "notifications (markAsRead nid s)
           = map (\<lambda>m. if n_id m = nid then m\<lparr>n_isRead := True, n_isNew := False\<rparr> else m) (notifications s) \<and>
         seenOrderIds (markAsRead nid s) = insert (js_String (n_orderId n)) (seenOrderIds s) \<and>
         lastOrderStatuses (markAsRead nid s) = lastOrderStatuses s \<and>
         markAsRead nid (markAsRead nid s) = markAsRead nid s"
proof -
  let ?f = "\<lambda>m. if n_id m = nid then markRead m else m"
  have once: "markAsRead nid s
      = s\<lparr>notifications := map ?f (notifications s),
          seenOrderIds := insert (js_String (n_orderId n)) (seenOrderIds s)\<rparr>"
    using present by (simp add: markAsRead_def Let_def)
  have again: "find (\<lambda>m. n_id m = nid) (notifications (markAsRead nid s)) = Some (markRead n)"
    using present by (simp add: once find_markRead)
  have twice: "markAsRead nid (markAsRead nid s) = markAsRead nid s"
    unfolding markAsRead_def [of nid "markAsRead nid s"] Let_def again
    by (simp add: once map_markRead_twice)
  show ?thesis
    using twice by (simp add: once markRead_def)
qed

theorem markAsRead_effect_witness:
  "find (\<lambda>m. n_id m = ''new-7-500'') (notifications knownState)
     = Some (plainNotif ''new-7-500'' (Num 7) new_order ''pending'' False) \<and>
   notifications (markAsRead ''new-7-500'' knownState)
     = map (\<lambda>m. if n_id m = ''new-7-500'' then m\<lparr>n_isRead := True, n_isNew := False\<rparr> else m) (notifications knownState) \<and>
   seenOrderIds (markAsRead ''new-7-500'' knownState)
     = insert (js_String (n_orderId (plainNotif ''new-7-500'' (Num 7) new_order ''pending'' False))) (seenOrderIds knownState) \<and>
   lastOrderStatuses (markAsRead ''new-7-500'' knownState) = lastOrderStatuses knownState \<and>
   markAsRead ''new-7-500'' (markAsRead ''new-7-500'' knownState) = markAsRead ''new-7-500'' knownState"
proof -
  have present: "find (\<lambda>m. n_id m = ''new-7-500'') (notifications knownState)
     = Some (plainNotif ''new-7-500'' (Num 7) new_order ''pending'' False)"
    by (simp add: knownState_def plainNotif_def)
  from markAsRead_effect [OF present] present show ?thesis
    by simp
qed

section \<open>Sorting and the cap of thirty\<close>

lemma newestFirst_sortNewestFirst: "newestFirst (sortNewestFirst ns)"
proof -
  have "sorted (map (\<lambda>n. - n_timestamp n) (sort_key (\<lambda>n. - n_timestamp n) ns))"
    by (rule sorted_sort_key)
  then show ?thesis
    by (simp add: newestFirst_def sortNewestFirst_def sorted_map)
qed

lemma newestFirst_take: "newestFirst ns \<Longrightarrow> newestFirst (take k ns)"
  by (simp add: newestFirst_def sorted_wrt_take)

lemma newestFirst_limited: "newestFirst (limited orders now s)"
  by (simp add: limited_def newestFirst_take newestFirst_sortNewestFirst)

lemma length_limited: "length (limited orders now s) \<le> 30"
  by (simp add: limited_def)

lemma set_sortNewestFirst [simp]: "set (sortNewestFirst ns) = set ns"
  and length_sortNewestFirst [simp]: "length (sortNewestFirst ns) = length ns"
  by (simp_all add: sortNewestFirst_def)

lemma take_before_drop:
  assumes "newestFirst ns" "a \<in> set (take k ns)" "b \<in> set (drop k ns)"
  shows "n_timestamp b \<le> n_timestamp a"
proof -
  have "newestFirst (take k ns @ drop k ns)"
    using assms(1) by simp
  then show ?thesis
    using assms(2,3) unfolding newestFirst_def sorted_wrt_append by blast
qed

lemma limited_most_recent:
  assumes "kept \<in> set (limited orders now s)"
    and "dropped \<in> set (uniqueNotifications orders now s)"
    and "dropped \<notin> set (limited orders now s)"
  shows "n_timestamp dropped \<le> n_timestamp kept"
proof -
  let ?sorted = "sortNewestFirst (uniqueNotifications orders now s)"
  have "dropped \<in> set (take 30 ?sorted) \<union> set (drop 30 ?sorted)"
    using assms(2) by (simp only: set_append [symmetric] append_take_drop_id set_sortNewestFirst)
  then have "dropped \<in> set (drop 30 ?sorted)"
    using assms(3) by (simp add: limited_def)
  then show ?thesis
    using take_before_drop [OF newestFirst_sortNewestFirst, of kept 30 _ dropped] assms(1)
    by (simp add: limited_def)
qed

text \<open>The deduplication keeps one notification per key.\<close>

lemma dedupe_keys: "notifKey ` set (dedupe S ns) = notifKey ` set ns - S"
  by (induction ns arbitrary: S) auto

lemma dedupe_subset: "set (dedupe S ns) \<subseteq> set ns"
  by (induction ns arbitrary: S) auto

lemma distinct_dedupe_keys: "distinct (map notifKey (dedupe S ns))"
proof (induction ns arbitrary: S)
  case Nil
  then show ?case by simp
next
  case (Cons n ns)
  have "notifKey n \<notin> notifKey ` set (dedupe (insert (notifKey n) S) ns)"
    by (simp add: dedupe_keys)
  with Cons show ?case by simp
qed

lemma length_dedupe: "length (dedupe S ns) = card (notifKey ` set ns - S)"
proof -
  have "length (dedupe S ns) = length (map notifKey (dedupe S ns))"
    by simp
  also have "\<dots> = card (set (map notifKey (dedupe S ns)))"
    using distinct_dedupe_keys by (simp only: distinct_card)
  also have "\<dots> = card (notifKey ` set ns - S)"
    by (simp add: dedupe_keys)
  finally show ?thesis .
qed

text \<open>A newly flagged order gets a new-order event, and its key determines the order.\<close>

lemma newKey_in_events:
  assumes "newlyFlagged s ord"
  shows "newKey ord \<in> notifKey ` set (newOrderEvent (notifications s) (seenOrderIds s) now ord)"
  using assms by (simp add: newlyFlagged_def newOrderEvent_def Let_def notifKey_def newKey_def)

lemma newKey_inj: "newKey a = newKey b \<Longrightarrow> js_String (o_id a) = js_String (o_id b)"
  by (simp add: newKey_def split: if_splits)

lemma newKey_in_new:
  assumes "ord \<in> set orders" "newlyFlagged s ord"
  shows "newKey ord \<in> notifKey ` set (newNotifications (notifications s) (seenOrderIds s) (lastOrderStatuses s) now orders)"
proof -
  have "set (newOrderEvent (notifications s) (seenOrderIds s) now ord)
     \<subseteq> set (newNotifications (notifications s) (seenOrderIds s) (lastOrderStatuses s) now orders)"
    using assms(1) by (auto simp: newNotifications_def orderEvents_def)
  then show ?thesis
    using newKey_in_events [OF assms(2), of now] by blast
qed

lemma many_unique:
  assumes dist: "distinct (map (\<lambda>ord. js_String (o_id ord)) orders)"
    and flagged: "list_all (newlyFlagged s) orders"
  shows "length orders \<le> length (uniqueNotifications orders now s)"
proof -
  let ?new = "newNotifications (notifications s) (seenOrderIds s) (lastOrderStatuses s) now orders"
  let ?all = "?new @ updatedPrev orders (notifications s)"
  have inj: "inj_on newKey (set orders)"
  proof (rule inj_onI)
    fix a b assume "a \<in> set orders" "b \<in> set orders" "newKey a = newKey b"
    then show "a = b"
      using dist newKey_inj [of a b] by (auto simp: distinct_map dest: inj_onD)
  qed
  have "distinct orders"
    using dist by (simp add: distinct_map)
  then have "length orders = card (set orders)"
    by (simp add: distinct_card)
  also have "\<dots> = card (newKey ` set orders)"
    using inj by (simp add: card_image)
  also have "\<dots> \<le> card (notifKey ` set ?all)"
  proof (rule card_mono)
    show "finite (notifKey ` set ?all)" by simp
    show "newKey ` set orders \<subseteq> notifKey ` set ?all"
    proof
      fix k assume "k \<in> newKey ` set orders"
      then obtain ord where "ord \<in> set orders" "k = newKey ord" by auto
      moreover have "newlyFlagged s ord"
        using flagged \<open>ord \<in> set orders\<close> by (simp add: list_all_iff)
      ultimately have "k \<in> notifKey ` set ?new"
        using newKey_in_new [of ord orders s now] by simp
      then show "k \<in> notifKey ` set ?all" by auto
    qed
  qed
  also have "\<dots> = length (uniqueNotifications orders now s)"
    by (simp add: uniqueNotifications_def length_dedupe)
  finally show ?thesis .
qed

lemma notifications_refresh_nonempty:
  "orders \<noteq> [] \<Longrightarrow> notifications (refreshNotifications (Fetched (Some orders)) now s) = limited orders now s"
  by (cases orders) simp_all

lemma capped_refresh:
  assumes "newestFirst (notifications s) \<and> length (notifications s) \<le> 30"
  shows "newestFirst (notifications (refreshNotifications response now s)) \<and>
         length (notifications (refreshNotifications response now s)) \<le> 30"
  using assms
  by (cases "(response, now, s)" rule: refreshNotifications.cases)
    (simp_all add: newestFirst_limited length_limited, simp_all add: newestFirst_def)

lemma capped_reconcileAll:
  assumes "newestFirst (notifications s) \<and> length (notifications s) \<le> 30"
  shows "newestFirst (notifications (reconcileAll passes s)) \<and>
         length (notifications (reconcileAll passes s)) \<le> 30"
  using assms
proof (induction passes arbitrary: s)
  case Nil
  then show ?case by (simp add: reconcileAll_def)
next
  case (Cons p passes)
  obtain response now where p: "p = (response, now)" by (cases p)
  have "reconcileAll (p # passes) s = reconcileAll passes (refreshNotifications response now s)"
    by (simp add: reconcileAll_def p)
  then show ?case
    using Cons.IH [OF capped_refresh [OF Cons.prems]] by simp
qed

lemma capped_fetched:
  "newestFirst (notifications (refreshNotifications (Fetched feed) now s)) \<and>
   length (notifications (refreshNotifications (Fetched feed) now s)) \<le> 30"
  by (cases "(Fetched feed, now, s)" rule: refreshNotifications.cases)
    (simp_all add: newestFirst_limited length_limited, simp_all add: newestFirst_def)

lemma exactly_thirty:
  assumes "30 \<le> length orders" "distinct (map (\<lambda>ord. js_String (o_id ord)) orders)"
    "list_all (newlyFlagged s) orders"
  shows "length (notifications (refreshNotifications (Fetched (Some orders)) now s)) = 30"
proof -
  have ne: "orders \<noteq> []" using assms(1) by auto
  have "30 \<le> length (uniqueNotifications orders now s)"
    using assms many_unique [of orders s now] by simp
  then show ?thesis
    by (simp add: notifications_refresh_nonempty [OF ne] limited_def)
qed

lemma kept_most_recent:
  assumes "orders \<noteq> []"
    and "kept \<in> set (notifications (refreshNotifications (Fetched (Some orders)) now s))"
    and "dropped \<in> set (uniqueNotifications orders now s)"
    and "dropped \<notin> set (notifications (refreshNotifications (Fetched (Some orders)) now s))"
  shows "n_timestamp dropped \<le> n_timestamp kept"
  using assms limited_most_recent [of kept orders now s dropped]
  by (simp add: notifications_refresh_nonempty)

lemma forty_length: "length fortyOrders = 40"
  by (simp add: fortyOrders_def)

lemma forty_distinct: "distinct (map (\<lambda>ord. js_String (o_id ord)) fortyOrders)"
proof -
  have "[1..40] = (1::int) # [2..40]"
    by (simp add: upto_rec1)
  then show ?thesis
    by (simp add: fortyOrders_def plainOrder_def upto_rec_numeral decimal.simps digitChar_def)
qed

lemma forty_flagged: "list_all (newlyFlagged emptyState) fortyOrders"
  by (simp add: list_all_iff newlyFlagged_def emptyState_def)



section \<open>One notification per deduplication key\<close>

lemma at_most_one:
  assumes "distinct (map f xs)" and "\<And>a b. a \<in> set xs \<Longrightarrow> b \<in> set xs \<Longrightarrow> f a = f b"
  shows "length xs \<le> 1"
proof (cases xs)
  case Nil
  then show ?thesis by simp
next
  case (Cons x ys)
  show ?thesis
  proof (cases ys)
    case Nil
    with Cons show ?thesis by simp
  next
    case (Cons y zs)
    with \<open>xs = x # ys\<close> have "f x = f y"
      using assms(2) [of x y] by simp
    with assms(1) \<open>xs = x # ys\<close> Cons show ?thesis by simp
  qed
qed

lemma keysDistinct_filter: "keysDistinct ns \<Longrightarrow> keysDistinct (filter P ns)"
  by (simp add: keysDistinct_def distinct_map_filter)

lemma keysDistinct_limited: "keysDistinct (limited orders now s)"
proof -
  let ?u = "uniqueNotifications orders now s"
  have "distinct (map notifKey ?u)"
    by (simp add: uniqueNotifications_def distinct_dedupe_keys)
  moreover have "mset (map notifKey (sortNewestFirst ?u)) = mset (map notifKey ?u)"
    by (simp add: sortNewestFirst_def)
  ultimately have "distinct (map notifKey (sortNewestFirst ?u))"
    using mset_eq_imp_distinct_iff by blast
  then have "distinct (take 30 (map notifKey (sortNewestFirst ?u)))"
    by (rule distinct_take)
  then show ?thesis
    by (simp add: keysDistinct_def limited_def take_map)
qed

lemma keysDistinct_fetched: "keysDistinct (notifications (refreshNotifications (Fetched feed) now s))"
  by (cases "(Fetched feed, now, s)" rule: refreshNotifications.cases)
    (simp_all add: keysDistinct_limited, simp_all add: keysDistinct_def)

lemma keysDistinct_refresh:
  "keysDistinct (notifications s) \<Longrightarrow> keysDistinct (notifications (refreshNotifications response now s))"
  by (cases response) (simp_all add: keysDistinct_fetched)

lemma keysDistinct_reconcileAll:
  "keysDistinct (notifications s) \<Longrightarrow> keysDistinct (notifications (reconcileAll passes s))"
proof (induction passes arbitrary: s)
  case Nil
  then show ?case by (simp add: reconcileAll_def)
next
  case (Cons p passes)
  obtain response now where p: "p = (response, now)" by (cases p)
  have "reconcileAll (p # passes) s = reconcileAll passes (refreshNotifications response now s)"
    by (simp add: reconcileAll_def p)
  then show ?case
    using Cons.IH [OF keysDistinct_refresh [OF Cons.prems]] by simp
qed

lemma one_per_key:
  assumes "keysDistinct ns"
  shows "length (unreadOfType oid new_order ns) \<le> 1 \<and>
         length (unreadOfType oid delivered ns) \<le> 1 \<and>
         length (unreadStatusChange oid st ns) \<le> 1"
proof (intro conjI)
  show "length (unreadOfType oid new_order ns) \<le> 1"
    unfolding unreadOfType_def
    by (rule at_most_one [where f = notifKey])
      (use assms in \<open>auto simp: keysDistinct_def distinct_map_filter notifKey_def\<close>)
  show "length (unreadOfType oid delivered ns) \<le> 1"
    unfolding unreadOfType_def
    by (rule at_most_one [where f = notifKey])
      (use assms in \<open>auto simp: keysDistinct_def distinct_map_filter notifKey_def\<close>)
  show "length (unreadStatusChange oid st ns) \<le> 1"
    unfolding unreadStatusChange_def
    by (rule at_most_one [where f = notifKey])
      (use assms in \<open>auto simp: keysDistinct_def distinct_map_filter notifKey_def\<close>)
qed

text \<open>
  C2, as the code has it. The key of the deduplication holds the type, so new-order and
  delivered notifications are deduplicated apart: after any sequence of passes from the
  empty state, and after any pass that fetched a feed from any state, an order has at most
  one unread new-order notification, at most one unread delivered notification, and at most
  one unread status-change notification per status value.
\<close>

theorem one_unread_per_key:
  "(length (unreadOfType oid new_order (notifications (reconcileAll passes emptyState))) \<le> 1 \<and>
    length (unreadOfType oid delivered (notifications (reconcileAll passes emptyState))) \<le> 1 \<and>
    length (unreadStatusChange oid st (notifications (reconcileAll passes emptyState))) \<le> 1) \<and>
   (length (unreadOfType oid new_order (notifications (refreshNotifications (Fetched feed) now s))) \<le> 1 \<and>
    length (unreadOfType oid delivered (notifications (refreshNotifications (Fetched feed) now s))) \<le> 1 \<and>
    length (unreadStatusChange oid st (notifications (refreshNotifications (Fetched feed) now s))) \<le> 1)"
proof -
  have "keysDistinct (notifications emptyState)"
    by (simp add: keysDistinct_def emptyState_def)
  then have "keysDistinct (notifications (reconcileAll passes emptyState))"
    by (rule keysDistinct_reconcileAll)
  then show ?thesis
    using one_per_key keysDistinct_fetched by blast
qed

theorem one_unread_per_key_witness:
  "length (unreadOfType ''1'' new_order (notifications (reconcileAll deliveredThenPending emptyState))) \<le> 1 \<and>
   length (unreadOfType ''1'' delivered (notifications (reconcileAll deliveredThenPending emptyState))) \<le> 1 \<and>
   length (unreadStatusChange ''1'' (Some ''pending'') (notifications (reconcileAll deliveredThenPending emptyState))) \<le> 1"
  using one_unread_per_key [of "''1''" deliveredThenPending "Some ''pending''" None 0 emptyState]
  by simp

text \<open>
  The claim itself counts new-order and delivered together, and fails: order 1 is delivered
  when first seen (a delivered notification), then the feed reports it pending (a new-order
  notification is added, with another key), and both are unread.
\<close>

theorem one_unread_per_class_counterexample:
  "length (unreadNewOrDelivered ''1'' (notifications (reconcileAll deliveredThenPending emptyState))) = 2"
  by (simp add: unreadNewOrDelivered_def deliveredThenPending_def pass_eval)

section \<open>Read notifications stay read\<close>

lemma notifications_markAsRead:
  "notifications (markAsRead nid s) = map (\<lambda>n. if n_id n = nid then markRead n else n) (notifications s)"
  unfolding markAsRead_def Let_def
  by (cases "find (\<lambda>n. n_id n = nid) (notifications s)") simp_all

lemma readUnder_map_markRead:
  "readUnder nid (map (\<lambda>n. if n_id n = nid then markRead n else n) ns)"
  by (induction ns) (simp_all add: readUnder_def markRead_def)

lemma readUnder_markAsRead: "readUnder nid (notifications (markAsRead nid s))"
  by (simp only: notifications_markAsRead readUnder_map_markRead)

lemma newOrderEvent_id:
  "n \<in> set (newOrderEvent prev seen now ord) \<Longrightarrow> suffix (''-'' @ decimal now) (n_id n)"
proof -
  have "suffix (''-'' @ decimal now) ((''new-'' @ js_String (o_id ord)) @ (''-'' @ decimal now))"
    by (rule suffix_appendI) simp
  moreover assume "n \<in> set (newOrderEvent prev seen now ord)"
  ultimately show ?thesis
    by (auto simp: newOrderEvent_def Let_def split: if_splits)
qed

lemma statusChangeEvent_id:
  "n \<in> set (statusChangeEvent prev seen statuses now ord) \<Longrightarrow> suffix (''-'' @ decimal now) (n_id n)"
proof -
  have "suffix (''-'' @ decimal now)
     ((''status-'' @ js_String (o_id ord) @ ''-'' @ replaceSpaces (currentStatusOf ord)) @ (''-'' @ decimal now))"
    by (rule suffix_appendI) simp
  moreover assume "n \<in> set (statusChangeEvent prev seen statuses now ord)"
  ultimately show ?thesis
    by (auto simp: statusChangeEvent_def Let_def split: if_splits)
qed

lemma upgradeEvent_source:
  assumes "n \<in> set (upgradeEvent prev ord)"
  shows "\<exists>m \<in> set prev. isUnreadNewOrderFor (o_id ord) m \<and> n_id n = n_id m \<and> n_isRead n = n_isRead m
           \<and> n_orderId n = n_orderId m \<and> n_type n = delivered"
proof (cases "find (isUnreadNewOrderFor (o_id ord)) prev")
  case None
  with assms show ?thesis
    by (simp add: upgradeEvent_def)
next
  case (Some m)
  then have "m \<in> set prev" "isUnreadNewOrderFor (o_id ord) m"
    by (auto simp: find_Some_iff)
  moreover have "n_id n = n_id m \<and> n_isRead n = n_isRead m \<and> n_orderId n = n_orderId m \<and> n_type n = delivered"
    using assms Some by (auto simp: upgradeEvent_def Let_def split: if_splits)
  ultimately show ?thesis by blast
qed

lemma carryForward_source:
  assumes "carryForward orders m = Some n"
  shows "n_id n = n_id m \<and> n_isRead n = n_isRead m \<and> n_orderId n = n_orderId m"
  using assms by (auto simp: carryForward_def Let_def split: option.splits if_splits)

lemma updatedPrev_source:
  assumes "n \<in> set (updatedPrev orders prev)"
  shows "\<exists>m \<in> set prev. n_id n = n_id m \<and> n_isRead n = n_isRead m \<and> n_orderId n = n_orderId m"
proof -
  from assms obtain m where "m \<in> set prev" "carryForward orders m = Some n"
    by (auto simp: updatedPrev_def List.map_filter_def)
  then show ?thesis
    using carryForward_source by blast
qed

lemma limited_subset:
  "set (limited orders now s)
     \<subseteq> set (newNotifications (notifications s) (seenOrderIds s) (lastOrderStatuses s) now orders)
       \<union> set (updatedPrev orders (notifications s))"
proof -
  have "set (limited orders now s) \<subseteq> set (uniqueNotifications orders now s)"
    using set_take_subset [of 30 "sortNewestFirst (uniqueNotifications orders now s)"]
    by (simp add: limited_def)
  also have "\<dots> \<subseteq> set (newNotifications (notifications s) (seenOrderIds s) (lastOrderStatuses s) now orders
       @ updatedPrev orders (notifications s))"
    unfolding uniqueNotifications_def by (rule dedupe_subset)
  finally show ?thesis by simp
qed

lemma readUnder_limited:
  assumes inv: "readUnder nid (notifications s)" and fresh: "\<not> suffix (''-'' @ decimal now) nid"
  shows "readUnder nid (limited orders now s)"
proof -
  have "n_isRead n" if mem: "n \<in> set (limited orders now s)" and nid: "n_id n = nid" for n
  proof -
    from mem limited_subset
    consider (new) "n \<in> set (newNotifications (notifications s) (seenOrderIds s) (lastOrderStatuses s) now orders)"
      | (old) "n \<in> set (updatedPrev orders (notifications s))"
      by blast
    then show ?thesis
    proof cases
      case new
      then obtain ord where
        "n \<in> set (newOrderEvent (notifications s) (seenOrderIds s) now ord)
         \<or> n \<in> set (upgradeEvent (notifications s) ord)
         \<or> n \<in> set (statusChangeEvent (notifications s) (seenOrderIds s) (lastOrderStatuses s) now ord)"
        by (auto simp: newNotifications_def orderEvents_def)
      then show ?thesis
      proof (elim disjE)
        assume "n \<in> set (newOrderEvent (notifications s) (seenOrderIds s) now ord)"
        then show ?thesis using newOrderEvent_id fresh nid by blast
      next
        assume "n \<in> set (statusChangeEvent (notifications s) (seenOrderIds s) (lastOrderStatuses s) now ord)"
        then show ?thesis using statusChangeEvent_id fresh nid by blast
      next
        assume "n \<in> set (upgradeEvent (notifications s) ord)"
        then obtain m where "m \<in> set (notifications s)" "isUnreadNewOrderFor (o_id ord) m" "n_id n = n_id m"
          using upgradeEvent_source by blast
        then show ?thesis
          using inv nid by (auto simp: readUnder_def list_all_iff isUnreadNewOrderFor_def)
      qed
    next
      case old
      then obtain m where "m \<in> set (notifications s)" "n_id n = n_id m" "n_isRead n = n_isRead m"
        using updatedPrev_source by blast
      then show ?thesis
        using inv nid by (auto simp: readUnder_def list_all_iff)
    qed
  qed
  then show ?thesis
    by (simp add: readUnder_def list_all_iff)
qed

lemma readUnder_refresh:
  assumes "readUnder nid (notifications s)" "\<not> suffix (''-'' @ decimal now) nid"
  shows "readUnder nid (notifications (refreshNotifications response now s))"
  using assms
  by (cases "(response, now, s)" rule: refreshNotifications.cases)
    (simp_all add: readUnder_limited, simp_all add: readUnder_def)

lemma readUnder_reconcileAll:
  assumes "readUnder nid (notifications s)" "list_all (freshClock nid) passes"
  shows "readUnder nid (notifications (reconcileAll passes s))"
  using assms
proof (induction passes arbitrary: s)
  case Nil
  then show ?case by (simp add: reconcileAll_def)
next
  case (Cons p passes)
  obtain response now where p: "p = (response, now)" by (cases p)
  have step: "reconcileAll (p # passes) s = reconcileAll passes (refreshNotifications response now s)"
    by (simp add: reconcileAll_def p)
  have "readUnder nid (notifications (refreshNotifications response now s))"
    using Cons.prems p by (intro readUnder_refresh) (simp_all add: freshClock_def)
  then show ?case
    using Cons.IH Cons.prems(2) step by simp
qed

text \<open>
  An identifier that a pass made at the clock reading \<open>t\<close> ends in a hyphen and \<open>t\<close> in
  decimal; every later reading is fresh for it.
\<close>

lemma digitChar_digit: "digitChar d \<in> set ''0123456789''"
proof -
  have "d mod 10 < length ''0123456789''" by simp
  then show ?thesis
    unfolding digitChar_def by (rule nth_mem)
qed

lemma digitChar_inj:
  assumes "digitChar a = digitChar b"
  shows "a mod 10 = b mod 10"
proof -
  have "distinct ''0123456789''" by simp
  moreover have "a mod 10 < length ''0123456789''" "b mod 10 < length ''0123456789''" by simp_all
  ultimately show ?thesis
    using assms unfolding digitChar_def by (simp only: nth_eq_iff_index_eq)
qed

lemma decimal_nonempty: "decimal n \<noteq> []"
  by (subst decimal.simps) simp

lemma decimal_no_hyphen: "CHR ''-'' \<notin> set (decimal n)"
proof (induction n rule: decimal.induct)
  case (1 n)
  have digit: "CHR ''-'' \<noteq> digitChar k" for k
    using digitChar_digit [of k] by auto
  show ?case
  proof (cases "n < 10")
    case True
    then have "decimal n = [digitChar n]"
      by (subst decimal.simps) simp
    then show ?thesis using digit by simp
  next
    case False
    then have "decimal n = decimal (n div 10) @ [digitChar (n mod 10)]"
      by (subst decimal.simps) simp
    then show ?thesis using digit "1" [OF False] by simp
  qed
qed

lemma decimal_inj: "decimal n = decimal m \<Longrightarrow> n = m"
proof (induction n arbitrary: m rule: decimal.induct)
  case (1 n)
  show ?case
  proof (cases "n < 10")
    case small_n: True
    show ?thesis
    proof (cases "m < 10")
      case True
      with small_n "1.prems" have "digitChar n = digitChar m"
        by (simp add: decimal.simps [of n] decimal.simps [of m])
      from digitChar_inj [OF this] small_n True show ?thesis by simp
    next
      case False
      with small_n "1.prems" have "decimal (m div 10) = []"
        by (simp add: decimal.simps [of n] decimal.simps [of m])
      then show ?thesis using decimal_nonempty by blast
    qed
  next
    case big_n: False
    show ?thesis
    proof (cases "m < 10")
      case True
      with big_n "1.prems" have "decimal (n div 10) = []"
        by (simp add: decimal.simps [of n] decimal.simps [of m])
      then show ?thesis using decimal_nonempty by blast
    next
      case False
      with big_n "1.prems"
      have "decimal (n div 10) = decimal (m div 10)" "digitChar (n mod 10) = digitChar (m mod 10)"
        by (simp_all add: decimal.simps [of n] decimal.simps [of m])
      then have "n div 10 = m div 10" "n mod 10 = m mod 10"
        using "1.IH" [OF big_n] digitChar_inj [of "n mod 10" "m mod 10"] by simp_all
      then show ?thesis
        by (metis div_mult_mod_eq)
    qed
  qed
qed

lemma made_earlier_is_fresh:
  assumes made: "suffix (''-'' @ decimal t) nid" and later: "t < now"
  shows "freshClock nid (response, now)"
proof -
  have False if again: "suffix (''-'' @ decimal now) nid"
  proof -
    have cases: "suffix (''-'' @ decimal t) (''-'' @ decimal now) \<or> suffix (''-'' @ decimal now) (''-'' @ decimal t)"
      using made again by (rule suffix_same_cases)
    have step: "a = b" if "suffix (''-'' @ decimal a) (''-'' @ decimal b)" for a b
    proof -
      from that obtain zs where zs: "''-'' @ decimal b = zs @ ''-'' @ decimal a"
        by (auto simp: suffix_def)
      show ?thesis
      proof (cases zs)
        case Nil
        with zs show ?thesis using decimal_inj by simp
      next
        case (Cons z zs')
        with zs have "decimal b = zs' @ ''-'' @ decimal a" by simp
        then have "CHR ''-'' \<in> set (decimal b)" by simp
        then show ?thesis using decimal_no_hyphen by blast
      qed
    qed
    from cases step [of t now] step [of now t] later show False by auto
  qed
  then show ?thesis
    by (auto simp: freshClock_def)
qed

text \<open>
  C9. Once \<^verbatim>\<open>markAsRead\<close> has been called on an identifier, no later sequence of passes
  (failed fetches included) yields a notification with that identifier that is unread,
  provided the clock reading of each later pass is fresh for the identifier, as it is for
  an identifier made at an earlier reading. This holds whether or not the status of the
  order changes, so in particular for the passes in which it does not change.
\<close>

theorem read_monotonic:
  assumes "list_all (freshClock nid) passes"
  shows "\<forall>n \<in> set (notifications (reconcileAll passes (markAsRead nid s))). n_id n = nid \<longrightarrow> n_isRead n"
  using readUnder_reconcileAll [OF readUnder_markAsRead assms]
  by (simp add: readUnder_def list_all_iff)

theorem read_monotonic_witness:
  "list_all (freshClock ''new-7-500'') pendingAgain \<and>
   \<not> (\<exists>n \<in> set (notifications (reconcileAll pendingAgain (markAsRead ''new-7-500'' knownState))).
        n_id n = ''new-7-500'' \<and> \<not> n_isRead n)"
proof -
  have fresh: "list_all (freshClock ''new-7-500'') pendingAgain"
    by (simp add: freshClock_def pendingAgain_def suffix_to_prefix decimal.simps digitChar_def)
  from read_monotonic [OF fresh, of knownState] fresh show ?thesis
    by blast
qed

section \<open>Repeating a pass over the same feed\<close>

lemma first_pass_ids: "map n_id (notifications afterFirstPass) = [''new-1-1000'']"
  by (simp add: afterFirstPass_def deliveredFeed_def pass_eval)

text \<open>
  C4. Two passes in a row over the same feed should end with the same notification list.
  The pass looks for an unread notification of type new-order only (line 294; its comment
  asks for one of the same type) before it makes the notification of a new order, so an
  unseen order that is delivered gets a new delivered notification at every pass, which
  the deduplication puts in place of the earlier one: after the second pass the list holds
  a notification with another identifier.
\<close>

theorem delivered_order_resynthesized:
  "map n_id (notifications afterFirstPass) = [''new-1-1000''] \<and>
   map n_id (notifications afterSecondPass) = [''new-1-31000''] \<and>
   notifications afterSecondPass \<noteq> notifications afterFirstPass"
proof -
  have second: "map n_id (notifications afterSecondPass) = [''new-1-31000'']"
    by (simp add: afterSecondPass_def afterFirstPass_def deliveredFeed_def pass_eval)
  have "map n_id (notifications afterSecondPass) \<noteq> map n_id (notifications afterFirstPass)"
    by (simp add: second first_pass_ids)
  then have "notifications afterSecondPass \<noteq> notifications afterFirstPass"
    by auto
  with first_pass_ids second show ?thesis by simp
qed

section \<open>The retroactive upgrade\<close>

text \<open>The deduplication key of a status change is never the one of a delivered notification.\<close>

lemma includes_str_append: "includes_str (xs @ ys) ys"
proof (induction xs)
  case Nil
  show ?case by (cases ys) simp_all
next
  case (Cons x xs)
  then show ?case by simp
qed

lemma toLowerCase_append: "toLowerCase (xs @ ys) = toLowerCase xs @ toLowerCase ys"
  by (simp add: toLowerCase_def)

lemma toLowerCase_delivered: "toLowerCase ''delivered'' = ''delivered''"
  by (simp add: toLowerCase_def lowerChar_def upperChars_def lowerChars_def)

lemma isDelivered_suffix: "isDeliveredStatus (us @ ''delivered'')"
  using includes_str_append [of "toLowerCase us" "''delivered''"]
  by (simp add: isDeliveredStatus_def Let_def toLowerCase_append toLowerCase_delivered)

lemma status_key_not_delivered_key:
  assumes eq: "a @ ''-status_change-'' @ st = b @ ''-delivered''"
  shows "isDeliveredStatus st"
proof -
  from eq have "(a @ ''-status_change-'') @ st = (b @ ''-'') @ ''delivered''"
    by simp
  then obtain us where
    "(a @ ''-status_change-'' = (b @ ''-'') @ us \<and> us @ st = ''delivered'')
     \<or> ((a @ ''-status_change-'') @ us = b @ ''-'' \<and> st = us @ ''delivered'')"
    unfolding append_eq_append_conv2 by blast
  then show ?thesis
  proof (elim disjE conjE)
    assume "st = us @ ''delivered''"
    then show ?thesis by (simp only: isDelivered_suffix)
  next
    assume split: "a @ ''-status_change-'' = (b @ ''-'') @ us" and rest: "us @ st = ''delivered''"
    show ?thesis
    proof (cases "us = []")
      case True
      with rest have "st = [] @ ''delivered''" by simp
      then show ?thesis by (simp only: isDelivered_suffix)
    next
      case False
      then have "last ((b @ ''-'') @ us) = last us" by simp
      moreover have "last (a @ ''-status_change-'') = CHR ''-''" by simp
      ultimately have "last us = CHR ''-''" using split by simp
      then have "CHR ''-'' \<in> set us" using False last_in_set by metis
      then have "CHR ''-'' \<in> set (us @ st)" by simp
      then have "CHR ''-'' \<in> set ''delivered''" by (simp only: rest)
      then show ?thesis by simp
    qed
  qed
qed

lemma newOrderEvent_fields:
  assumes "e \<in> set (newOrderEvent prev seen now ord)"
  shows "n_orderId e = o_id ord \<and> n_type e \<noteq> status_change"
  using assms by (auto simp: newOrderEvent_def Let_def split: if_splits)

lemma statusChangeEvent_fields:
  assumes "e \<in> set (statusChangeEvent prev seen statuses now ord)"
  shows "n_orderId e = o_id ord \<and> n_type e = getNotificationType (currentStatusOf ord)
         \<and> n_status e = Some (currentStatusOf ord)"
  using assms by (auto simp: statusChangeEvent_def Let_def split: if_splits)

lemma upgradeEvent_fields:
  assumes "e \<in> set (upgradeEvent prev ord)"
  shows "n_orderId e = o_id ord \<and> n_type e = delivered"
  using upgradeEvent_source [OF assms] by (auto simp: isUnreadNewOrderFor_def)

lemma orderEvents_cases:
  assumes "e \<in> set (orderEvents prev seen statuses now ord)"
  obtains (new) "e \<in> set (newOrderEvent prev seen now ord)"
    | (upgrade) "e \<in> set (upgradeEvent prev ord)"
    | (status) "e \<in> set (statusChangeEvent prev seen statuses now ord)"
  using assms by (auto simp: orderEvents_def)

lemma orderEvents_orderId:
  assumes "e \<in> set (orderEvents prev seen statuses now ord)"
  shows "n_orderId e = o_id ord"
  using assms newOrderEvent_fields upgradeEvent_fields statusChangeEvent_fields
  by (cases rule: orderEvents_cases) blast+

lemma orderEvents_status_change:
  assumes "e \<in> set (orderEvents prev seen statuses now ord)" "n_type e = status_change"
  shows "n_status e = Some (currentStatusOf ord) \<and> \<not> isDeliveredStatus (currentStatusOf ord)"
  using assms(1)
proof (cases rule: orderEvents_cases)
  case new
  then show ?thesis using newOrderEvent_fields assms(2) by blast
next
  case upgrade
  then show ?thesis using upgradeEvent_fields assms(2) by fastforce
next
  case status
  from statusChangeEvent_fields [OF status] assms(2)
  show ?thesis by (auto simp: getNotificationType_def split: if_splits)
qed

lemma delivered_key: "n_type e = delivered \<Longrightarrow> notifKey e = js_String (n_orderId e) @ ''-delivered''"
  by (simp add: notifKey_def)

lemma orderEvents_other_key:
  assumes ev: "e \<in> set (orderEvents prev seen statuses now ord)"
    and other: "js_String (o_id ord) \<noteq> oid"
  shows "notifKey e \<noteq> oid @ ''-delivered''"
proof
  assume eq: "notifKey e = oid @ ''-delivered''"
  have oid_e: "js_String (n_orderId e) = js_String (o_id ord)"
    using orderEvents_orderId [OF ev] by simp
  show False
  proof (cases "n_type e")
    case new_order
    with eq oid_e show False by (simp add: notifKey_def)
  next
    case delivered
    with eq oid_e other show False by (simp add: notifKey_def)
  next
    case status_change
    from orderEvents_status_change [OF ev status_change]
    have st: "n_status e = Some (currentStatusOf ord)" and nd: "\<not> isDeliveredStatus (currentStatusOf ord)"
      by simp_all
    have "orElse (n_status e) [] = currentStatusOf ord"
      using st by simp
    with eq oid_e status_change
    have "js_String (o_id ord) @ ''-status_change-'' @ currentStatusOf ord = oid @ ''-delivered''"
      by (simp add: notifKey_def)
    then show False
      using status_key_not_delivered_key nd by blast
  qed
qed

lemma dedupe_first:
  assumes "notifKey x \<notin> S" "notifKey x \<notin> notifKey ` set front"
  shows "x \<in> set (dedupe S (front @ x # rest))"
  using assms by (induction front arbitrary: S) auto

lemma find_list_ex: "find P xs = Some x \<Longrightarrow> list_ex P xs"
  by (auto simp: find_Some_iff list_ex_iff)


lemma orderEvents_upgrade:
  assumes found: "find (isUnreadNewOrderFor (o_id ord)) prev = Some n0"
    and deliv: "isDeliveredStatus (currentStatusOf ord)"
    and differs: "n_status n0 \<noteq> Some (currentStatusOf ord)"
  shows "orderEvents prev seen statuses now ord
           = upgraded ord n0 # statusChangeEvent prev seen statuses now ord"
proof -
  have "list_ex (isUnreadNewOrderFor (o_id ord)) prev"
    using found by (rule find_list_ex)
  then have "newOrderEvent prev seen now ord = []"
    by (simp add: newOrderEvent_def Let_def)
  moreover have "upgradeEvent prev ord = [upgraded ord n0]"
    using found deliv differs by (simp add: upgradeEvent_def Let_def upgraded_def)
  ultimately show ?thesis
    by (simp add: orderEvents_def)
qed

lemma upgraded_fields:
  "n_id (upgraded ord n) = n_id n" "n_orderId (upgraded ord n) = n_orderId n"
  "n_type (upgraded ord n) = delivered" "n_isRead (upgraded ord n) = n_isRead n"
  by (simp_all add: upgraded_def)

lemma found_fields:
  assumes "find (isUnreadNewOrderFor oid) prev = Some n0"
  shows "n0 \<in> set prev" "n_orderId n0 = oid" "n_type n0 = new_order" "\<not> n_isRead n0"
  using assms by (auto simp: find_Some_iff isUnreadNewOrderFor_def)

lemma undelivered_differs:
  assumes "newOrdersUndelivered prev" "m \<in> set prev" "n_type m = new_order"
    "isDeliveredStatus st"
  shows "n_status m \<noteq> Some st"
  using assms by (auto simp: newOrdersUndelivered_def list_all_iff split: option.splits)

lemma upgraded_in_unique:
  assumes found: "find (isUnreadNewOrderFor (o_id ord)) (notifications s) = Some n0"
    and infeed: "ord \<in> set orders"
    and dist: "distinct (map (\<lambda>x. js_String (o_id x)) orders)"
    and deliv: "isDeliveredStatus (currentStatusOf ord)"
    and undel: "newOrdersUndelivered (notifications s)"
  shows "upgraded ord n0 \<in> set (uniqueNotifications orders now s)"
proof -
  let ?ev = "orderEvents (notifications s) (seenOrderIds s) (lastOrderStatuses s) now"
  let ?u = "upgraded ord n0"
  from infeed obtain before after where split: "orders = before @ ord # after"
    by (auto simp: in_set_conv_decomp)
  have differs: "n_status n0 \<noteq> Some (currentStatusOf ord)"
    using undelivered_differs [OF undel _ _ deliv] found_fields [OF found] by blast
  have events: "?ev ord = ?u # statusChangeEvent (notifications s) (seenOrderIds s) (lastOrderStatuses s) now ord"
    using orderEvents_upgrade [OF found deliv differs] .
  let ?front = "concat (map ?ev before)"
  let ?rest = "statusChangeEvent (notifications s) (seenOrderIds s) (lastOrderStatuses s) now ord
                 @ concat (map ?ev after) @ updatedPrev orders (notifications s)"
  have combined: "newNotifications (notifications s) (seenOrderIds s) (lastOrderStatuses s) now orders
                    @ updatedPrev orders (notifications s) = ?front @ ?u # ?rest"
    by (simp add: newNotifications_def split events)
  have key: "notifKey ?u = js_String (o_id ord) @ ''-delivered''"
    using found_fields(2) [OF found] by (simp add: delivered_key upgraded_fields)
  have "notifKey ?u \<notin> notifKey ` set ?front"
  proof
    assume "notifKey ?u \<in> notifKey ` set ?front"
    then obtain e y where e: "e \<in> set (?ev y)" and y: "y \<in> set before" and k: "notifKey e = notifKey ?u"
      by auto
    have "js_String (o_id y) \<noteq> js_String (o_id ord)"
    proof
      assume same: "js_String (o_id y) = js_String (o_id ord)"
      have "(\<lambda>x. js_String (o_id x)) y \<in> (\<lambda>x. js_String (o_id x)) ` set before"
        using y by (rule imageI)
      then have "js_String (o_id ord) \<in> (\<lambda>x. js_String (o_id x)) ` set before"
        by (simp only: same)
      then show False
        using dist by (simp add: split)
    qed
    from orderEvents_other_key [OF e this] k key show False by simp
  qed
  then have "?u \<in> set (dedupe {} (?front @ ?u # ?rest))"
    by (intro dedupe_first) simp_all
  then show ?thesis
    by (simp only: uniqueNotifications_def combined)
qed


lemma same_order:
  assumes "distinct (map (\<lambda>x. js_String (o_id x)) orders)" "y \<in> set orders" "ord \<in> set orders"
    "js_String (o_id y) = js_String (o_id ord)"
  shows "y = ord"
  using assms by (auto simp: distinct_map dest: inj_onD)

lemma carried_not_new_order:
  assumes old: "m \<in> set (updatedPrev orders prev)"
    and same: "js_String (n_orderId m) = js_String (o_id ord)"
    and infeed: "ord \<in> set orders"
    and dist: "distinct (map (\<lambda>x. js_String (o_id x)) orders)"
    and deliv: "isDeliveredStatus (currentStatusOf ord)"
    and undel: "newOrdersUndelivered prev"
  shows "n_type m \<noteq> new_order"
proof -
  from old obtain m0 where m0: "m0 \<in> set prev" and carried: "carryForward orders m0 = Some m"
    by (auto simp: updatedPrev_def List.map_filter_def)
  from carried obtain y where y: "find (\<lambda>x. js_String (o_id x) = js_String (n_orderId m0)) orders = Some y"
    by (cases "find (\<lambda>x. js_String (o_id x) = js_String (n_orderId m0)) orders")
      (simp_all add: carryForward_def)
  then have "y \<in> set orders" "js_String (o_id y) = js_String (n_orderId m0)"
    by (auto simp: find_Some_iff)
  moreover have "n_orderId m = n_orderId m0"
    using carryForward_source [OF carried] by simp
  ultimately have "y = ord"
    using same_order [OF dist _ infeed] same by simp
  show ?thesis
  proof (cases "n_type m0 = new_order")
    case True
    then have "n_status m0 \<noteq> Some (currentStatusOf ord)"
      using undelivered_differs [OF undel m0 _ deliv] by simp
    with carried y \<open>y = ord\<close> True deliv show ?thesis
      by (auto simp: carryForward_def Let_def)
  next
    case False
    with carried y show ?thesis
      by (auto simp: carryForward_def Let_def split: if_splits)
  qed
qed

lemma synthesized_not_new_order:
  assumes new: "m \<in> set (newNotifications (notifications s) (seenOrderIds s) (lastOrderStatuses s) now orders)"
    and same: "js_String (n_orderId m) = js_String (o_id ord)"
    and found: "find (isUnreadNewOrderFor (o_id ord)) (notifications s) = Some n0"
    and infeed: "ord \<in> set orders"
    and dist: "distinct (map (\<lambda>x. js_String (o_id x)) orders)"
    and deliv: "isDeliveredStatus (currentStatusOf ord)"
    and undel: "newOrdersUndelivered (notifications s)"
  shows "n_type m \<noteq> new_order"
proof -
  let ?ev = "orderEvents (notifications s) (seenOrderIds s) (lastOrderStatuses s) now"
  from new obtain y where y: "y \<in> set orders" and ev: "m \<in> set (?ev y)"
    by (auto simp: newNotifications_def)
  have "js_String (o_id y) = js_String (o_id ord)"
    using orderEvents_orderId [OF ev] same by simp
  then have "y = ord"
    using same_order [OF dist y infeed] by simp
  have differs: "n_status n0 \<noteq> Some (currentStatusOf ord)"
    using undelivered_differs [OF undel _ _ deliv] found_fields [OF found] by blast
  from ev \<open>y = ord\<close> orderEvents_upgrade [OF found deliv differs]
  have "m = upgraded ord n0
        \<or> m \<in> set (statusChangeEvent (notifications s) (seenOrderIds s) (lastOrderStatuses s) now ord)"
    by simp
  then show ?thesis
  proof
    assume "m = upgraded ord n0"
    then show ?thesis by (simp add: upgraded_fields)
  next
    assume "m \<in> set (statusChangeEvent (notifications s) (seenOrderIds s) (lastOrderStatuses s) now ord)"
    from statusChangeEvent_fields [OF this] deliv show ?thesis
      by (simp add: getNotificationType_def)
  qed
qed

lemma distinct_singleton:
  assumes "distinct xs" "set xs = {u}"
  shows "xs = [u]"
proof (cases xs)
  case Nil
  with assms(2) show ?thesis by simp
next
  case (Cons x ys)
  with assms(2) have "x = u" by auto
  moreover have "ys = []"
  proof (rule ccontr)
    assume "ys \<noteq> []"
    then obtain y where "y \<in> set ys" by (cases ys) auto
    with assms(2) Cons have "y = u" by auto
    with \<open>y \<in> set ys\<close> \<open>x = u\<close> assms(1) Cons show False by simp
  qed
  ultimately show ?thesis using Cons by simp
qed

text \<open>
  C3, as the code has it. The state holds an unread new-order notification for an order
  (\<open>n0\<close> is the one \<^verbatim>\<open>prev.find\<close> returns) and no new-order notification with a delivered
  status; the feed lists each order once and reports this order delivered; the pass cuts
  nothing (its merged list has at most 30 entries). Then, among the notifications of the
  order after the pass, exactly one is of type new-order or delivered: it is \<open>n0\<close> turned
  into a delivered notification, with the identifier of \<open>n0\<close>. Status-change notifications
  of the order stay beside it.
\<close>

theorem retroactive_upgrade:
  assumes found: "find (isUnreadNewOrderFor (o_id ord)) (notifications s) = Some n0"
    and infeed: "ord \<in> set orders"
    and dist: "distinct (map (\<lambda>x. js_String (o_id x)) orders)"
    and deliv: "isDeliveredStatus (currentStatusOf ord)"
    and undel: "newOrdersUndelivered (notifications s)"
    and room: "length (uniqueNotifications orders now s) \<le> 30"
  shows "newOrDeliveredOf (js_String (o_id ord)) (notifications (refreshNotifications (Fetched (Some orders)) now s))
           = [n0\<lparr>n_type := delivered, n_message := deliveredMessage,
                 n_status := Some (currentStatusOf ord),
                 n_timestamp := firstDate [o_updated_at ord] (n_timestamp n0)\<rparr>]"
proof -
  let ?u = "upgraded ord n0"
  let ?result = "notifications (refreshNotifications (Fetched (Some orders)) now s)"
  have ne: "orders \<noteq> []" using infeed by auto
  have result: "?result = limited orders now s"
    using notifications_refresh_nonempty [OF ne] .
  have set_result: "set ?result = set (uniqueNotifications orders now s)"
    using room by (simp add: result limited_def)
  have subset: "set ?result
     \<subseteq> set (newNotifications (notifications s) (seenOrderIds s) (lastOrderStatuses s) now orders)
       \<union> set (updatedPrev orders (notifications s))"
    using limited_subset by (simp only: result)
  have keys: "distinct (map notifKey ?result)"
    using keysDistinct_limited by (simp only: result keysDistinct_def)
  have u_in: "?u \<in> set ?result"
    using upgraded_in_unique [OF found infeed dist deliv undel] by (simp only: set_result)
  have u_id: "n_orderId ?u = o_id ord"
    using found_fields(2) [OF found] by (simp add: upgraded_fields)
  have only: "m = ?u"
    if m: "m \<in> set ?result" and same: "js_String (n_orderId m) = js_String (o_id ord)"
      and cls: "n_type m = new_order \<or> n_type m = delivered" for m
  proof -
    from subset m
    consider (new) "m \<in> set (newNotifications (notifications s) (seenOrderIds s) (lastOrderStatuses s) now orders)"
      | (old) "m \<in> set (updatedPrev orders (notifications s))"
      by blast
    then have "n_type m \<noteq> new_order"
    proof cases
      case new
      then show ?thesis
        by (rule synthesized_not_new_order [OF _ same found infeed dist deliv undel])
    next
      case old
      then show ?thesis
        by (rule carried_not_new_order [OF _ same infeed dist deliv undel])
    qed
    with cls have "n_type m = delivered" by simp
    then have "notifKey m = notifKey ?u"
      using same u_id by (simp add: delivered_key upgraded_fields)
    moreover have "inj_on notifKey (set ?result)"
      using keys by (simp add: distinct_map)
    ultimately show ?thesis
      using m u_in by (auto dest: inj_onD)
  qed
  have "distinct (newOrDeliveredOf (js_String (o_id ord)) ?result)"
    using keys by (simp add: newOrDeliveredOf_def distinct_map)
  moreover have "set (newOrDeliveredOf (js_String (o_id ord)) ?result) = {?u}"
  proof (intro equalityI subsetI)
    fix m assume "m \<in> set (newOrDeliveredOf (js_String (o_id ord)) ?result)"
    then have "m \<in> set ?result" "js_String (n_orderId m) = js_String (o_id ord)"
      "n_type m = new_order \<or> n_type m = delivered"
      by (simp_all add: newOrDeliveredOf_def)
    then have "m = ?u" by (rule only)
    then show "m \<in> {?u}" by simp
  next
    fix m assume "m \<in> {?u}"
    then have "m = ?u" by simp
    then show "m \<in> set (newOrDeliveredOf (js_String (o_id ord)) ?result)"
      using u_in u_id by (simp add: newOrDeliveredOf_def upgraded_fields)
  qed
  ultimately have "newOrDeliveredOf (js_String (o_id ord)) ?result = [?u]"
    by (rule distinct_singleton)
  then show ?thesis
    by (simp only: upgraded_def)
qed

theorem retroactive_upgrade_witness:
  "find (isUnreadNewOrderFor (o_id (plainOrder (Num 7) ''delivered''))) (notifications knownState)
     = Some (plainNotif ''new-7-500'' (Num 7) new_order ''pending'' False) \<and>
   plainOrder (Num 7) ''delivered'' \<in> set deliveredAndNew \<and>
   distinct (map (\<lambda>x. js_String (o_id x)) deliveredAndNew) \<and>
   isDeliveredStatus (currentStatusOf (plainOrder (Num 7) ''delivered'')) \<and>
   newOrdersUndelivered (notifications knownState) \<and>
   length (uniqueNotifications deliveredAndNew 31000 knownState) \<le> 30 \<and>
   newOrDeliveredOf (js_String (o_id (plainOrder (Num 7) ''delivered'')))
       (notifications (refreshNotifications (Fetched (Some deliveredAndNew)) 31000 knownState))
     = [(plainNotif ''new-7-500'' (Num 7) new_order ''pending'' False)
          \<lparr>n_type := delivered, n_message := deliveredMessage,
           n_status := Some (currentStatusOf (plainOrder (Num 7) ''delivered'')),
           n_timestamp := firstDate [o_updated_at (plainOrder (Num 7) ''delivered'')]
                            (n_timestamp (plainNotif ''new-7-500'' (Num 7) new_order ''pending'' False))\<rparr>]"
proof -
  have found: "find (isUnreadNewOrderFor (o_id (plainOrder (Num 7) ''delivered''))) (notifications knownState)
     = Some (plainNotif ''new-7-500'' (Num 7) new_order ''pending'' False)"
    by (simp add: knownState_def plainNotif_def plainOrder_def isUnreadNewOrderFor_def)
  have infeed: "plainOrder (Num 7) ''delivered'' \<in> set deliveredAndNew"
    by (simp add: deliveredAndNew_def)
  have dist: "distinct (map (\<lambda>x. js_String (o_id x)) deliveredAndNew)"
    by (simp add: deliveredAndNew_def plainOrder_def decimal.simps digitChar_def)
  have deliv: "isDeliveredStatus (currentStatusOf (plainOrder (Num 7) ''delivered''))"
    by (simp add: pass_eval)
  have undel: "newOrdersUndelivered (notifications knownState)"
    by (simp add: newOrdersUndelivered_def knownState_def pass_eval)
  have room: "length (uniqueNotifications deliveredAndNew 31000 knownState) \<le> 30"
    by (simp add: deliveredAndNew_def knownState_def pass_eval)
  from retroactive_upgrade [OF found infeed dist deliv undel room] found infeed dist deliv undel room
  show ?thesis by simp
qed

lemma replicate_numeral_unfold: "replicate (numeral k) x = x # replicate (pred_numeral k) x"
  by (simp add: numeral_eq_Suc)

lemma afterDeliveredThenPending_reached:
  "reconcileAll deliveredThenPending emptyState = afterDeliveredThenPending"
  by (simp add: afterDeliveredThenPending_def madeForOrder1_def deliveredThenPending_def
      replicate_numeral_unfold pass_eval)

lemma beforeUpgrade_reached:
  "refreshNotifications (Fetched (Some [plainOrder (Num 1) ''preparing''])) 61000
     (markAsRead ''new-1-1000'' (reconcileAll deliveredThenPending emptyState)) = beforeUpgrade"
  unfolding afterDeliveredThenPending_reached
  by (simp add: afterDeliveredThenPending_def beforeUpgrade_def madeForOrder1_def markAsRead_def
      markRead_def replicate_numeral_unfold pass_eval)

text \<open>
  The claim itself fails where the order has another notification. The state below is
  reached from the empty state by passes and one \<^verbatim>\<open>markAsRead\<close>; it holds an unread
  new-order notification for order 1 and an unread status change. After the pass that
  reports the order delivered, the order has two notifications.
\<close>

theorem exactly_one_for_order_counterexample:
  "list_ex (isUnreadNewOrderFor (Num 1)) (notifications beforeUpgrade) \<and>
   isDeliveredStatus (currentStatusOf (plainOrder (Num 1) ''delivered'')) \<and>
   length (notificationsOf ''1''
     (notifications (refreshNotifications (Fetched (Some [plainOrder (Num 1) ''delivered''])) 91000 beforeUpgrade))) = 2"
  by (simp add: notificationsOf_def beforeUpgrade_def madeForOrder1_def pass_eval)

end
